theory Spec2Isabelle
  imports Main "HOL-Library.Sublist"
begin

section \<open>htmlmut: HTML reports of mutation-testing results\<close>

text \<open>
  A shallow embedding of \<^verbatim>\<open>src/htmlmut.py\<close>. Python's \<^verbatim>\<open>str\<close> is modelled as
  \<^typ>\<open>string\<close>; a \<^typ>\<open>char\<close> stands for the code point of the same number, so the
  model covers the code points below 256. Python's exceptions are values of the type
  \<open>py_error\<close>, and a function that can raise returns \<open>py_error + 'a\<close>.
\<close>

subsection \<open>Python strings\<close>

datatype py_error =
    IndexError
  | TokenError string
  | IndentationError string

definition dquote :: string where
  "dquote = [CHR 0x22]"

definition squote :: string where
  "squote = [CHR 0x27]"

definition newline :: string where
  "newline = [CHR 0x0A]"

text \<open>\<^verbatim>\<open>d.get(k, default)\<close> on a dict literal, written as the list of its items. The
  keys of every literal below are distinct, so the first binding is the only one.\<close>

definition dict_get :: "('k \<times> 'v) list \<Rightarrow> 'k \<Rightarrow> 'v \<Rightarrow> 'v" where
  "dict_get d k dflt = (case map_of d k of None \<Rightarrow> dflt | Some v \<Rightarrow> v)"

text \<open>\<^verbatim>\<open>html.escape(s)\<close> with its default \<^verbatim>\<open>quote=True\<close>.\<close>

definition escape_char :: "char \<Rightarrow> string" where
  "escape_char c =
     (if c = CHR ''&'' then ''&amp;''
      else if c = CHR ''<'' then ''&lt;''
      else if c = CHR ''>'' then ''&gt;''
      else if c = CHR 0x22 then ''&quot;''
      else if c = CHR 0x27 then ''&#x27;''
      else [c])"

definition html_escape :: "string \<Rightarrow> string" where
  "html_escape s = concat (map escape_char s)"

text \<open>\<^verbatim>\<open>s.replace(old, new)\<close>: the occurrences of \<open>old\<close> are replaced from the left,
  without overlap. The counter is the number of characters of a matched occurrence that
  are still to be skipped. With an empty \<open>old\<close>, Python puts \<open>new\<close> before every
  character and at the end.\<close>

fun replace_from :: "string \<Rightarrow> string \<Rightarrow> nat \<Rightarrow> string \<Rightarrow> string" where
  "replace_from old new k [] = []"
| "replace_from old new (Suc k) (c # cs) = replace_from old new k cs"
| "replace_from old new 0 (c # cs) =
     (if prefix old (c # cs) then new @ replace_from old new (length old - 1) cs
      else c # replace_from old new 0 cs)"

definition str_replace :: "string \<Rightarrow> string \<Rightarrow> string \<Rightarrow> string" where
  "str_replace old new s =
     (if old = [] then new @ concat (map (\<lambda>c. c # new) s) else replace_from old new 0 s)"

text \<open>\<^verbatim>\<open>s.startswith(p)\<close> is \<^const>\<open>prefix\<close>; \<^verbatim>\<open>sep.join(xs)\<close>:\<close>

fun str_join :: "string \<Rightarrow> string list \<Rightarrow> string" where
  "str_join sep [] = []"
| "str_join sep [x] = x"
| "str_join sep (x # y # ys) = x @ sep @ str_join sep (y # ys)"

text \<open>\<^verbatim>\<open>s.splitlines()\<close>. The line boundaries among the code points below 256 are
  LF, VT, FF, CR, FS, GS, RS and NEL; CR followed by LF is one boundary. A text that ends
  with a boundary has no empty last line.\<close>

definition is_linebreak :: "char \<Rightarrow> bool" where
  "is_linebreak c \<longleftrightarrow>
     c \<in> {CHR 0x0A, CHR 0x0B, CHR 0x0C, CHR 0x0D, CHR 0x1C, CHR 0x1D, CHR 0x1E, CHR 0x85}"

fun splitlines_from :: "string \<Rightarrow> string \<Rightarrow> string list" where
  "splitlines_from cur [] = (if cur = [] then [] else [cur])"
| "splitlines_from cur (c # cs) =
     (if c = CHR 0x0D then
        (case cs of
           d # ds \<Rightarrow> if d = CHR 0x0A then cur # splitlines_from [] ds
                     else cur # splitlines_from [] cs
         | [] \<Rightarrow> cur # splitlines_from [] cs)
      else if is_linebreak c then cur # splitlines_from [] cs
      else splitlines_from (cur @ [c]) cs)"

definition splitlines :: "string \<Rightarrow> string list" where
  "splitlines s = splitlines_from [] s"

text \<open>\<^verbatim>\<open>str(n)\<close> and \<^verbatim>\<open>f'{n}'\<close> for an integer: its decimal digits, with a minus sign for
  a negative number.\<close>

definition digit_char :: "nat \<Rightarrow> char" where
  "digit_char d = ''0123456789'' ! d"

fun str_nat :: "nat \<Rightarrow> string" where
  "str_nat n = (if n < 10 then [digit_char n] else str_nat (n div 10) @ [digit_char (n mod 10)])"

definition str_int :: "int \<Rightarrow> string" where
  "str_int i = (if i < 0 then CHR ''-'' # str_nat (nat (- i)) else str_nat (nat i))"

text \<open>\<^verbatim>\<open>xs[0]\<close> raises IndexError on an empty list.\<close>

fun first :: "'a list \<Rightarrow> py_error + 'a" where
  "first [] = Inl IndexError"
| "first (item # items) = Inr item"

subsection \<open>Status lattice\<close>

text \<open>Modelled from the spec: the six status constants are imported from the package
  \<^verbatim>\<open>mutmut\<close>, which is not part of this repository. The spec enumerates them as
  survived, timeout, skipped, untested, suspicious and killed; they are strings, with the
  values the package gives them.\<close>

definition BAD_SURVIVED :: string where "BAD_SURVIVED = ''bad_survived''"
definition BAD_TIMEOUT :: string where "BAD_TIMEOUT = ''bad_timeout''"
definition SKIPPED :: string where "SKIPPED = ''skipped''"
definition UNTESTED :: string where "UNTESTED = ''untested''"
definition OK_SUSPICIOUS :: string where "OK_SUSPICIOUS = ''ok_suspicious''"
definition OK_KILLED :: string where "OK_KILLED = ''ok_killed''"

definition MUTANT_STATUS2TEXT :: "(string \<times> string) list" where
  "MUTANT_STATUS2TEXT =
     [(BAD_SURVIVED, ''Survivied''),
      (BAD_TIMEOUT, ''Timeout''),
      (SKIPPED, ''Skipped''),
      (UNTESTED, ''Untested''),
      (OK_SUSPICIOUS, ''Suspicious''),
      (OK_KILLED, ''Killed'')]"

definition MUTANT_STATUS2BG :: "(string \<times> string) list" where
  "MUTANT_STATUS2BG =
     [(BAD_SURVIVED, ''bgred''),
      (BAD_TIMEOUT, ''bgorange''),
      (SKIPPED, ''bgray''),
      (UNTESTED, ''bgred''),
      (OK_SUSPICIOUS, ''bggreen''),
      (OK_KILLED, ''bggreen'')]"

definition COMBINE_BGS :: "(string \<times> (string \<times> string) list) list" where
  "COMBINE_BGS =
     [(''bgred'',
         [(''bgred'', ''bgred''), (''bgorange'', ''bgred''), (''bggray'', ''bgred''),
          (''bggreen'', ''bgred'')]),
      (''bgorange'',
         [(''bgred'', ''bgred''), (''bgorange'', ''bgorange''), (''bggray'', ''bgorange''),
          (''bggreen'', ''bgorange'')]),
      (''bgray'',
         [(''bgred'', ''bgred''), (''bgorange'', ''bgorange''), (''bggray'', ''bggray''),
          (''bggreen'', ''bggreen'')]),
      (''bggreen'',
         [(''bgred'', ''bgred''), (''bgorange'', ''bgorange''), (''bggray'', ''bggreen''),
          (''bggreen'', ''bggreen'')])]"

text \<open>The lookups of \<^verbatim>\<open>create_html_from_source\<close>: the label and the colour class of a
  status, and the merge \<^verbatim>\<open>COMBINE_BGS.get(txt_cls, {}).get(bg, 'bgred')\<close> of the class
  accumulated for a line with the class of the next mutant.\<close>

definition status_text :: "string \<Rightarrow> string" where
  "status_text status = dict_get MUTANT_STATUS2TEXT status ''--ERROR--''"

definition status_bg :: "string \<Rightarrow> string" where
  "status_bg status = dict_get MUTANT_STATUS2BG status ''bgred''"

definition combine :: "string \<Rightarrow> string \<Rightarrow> string" where
  "combine txt_cls bg = dict_get (dict_get COMBINE_BGS txt_cls []) bg ''bgred''"

subsection \<open>Tokenizer/Highlighter\<close>

text \<open>The token kinds of the standard module \<^verbatim>\<open>tokenize\<close> and the tokens its generator
  yields: kind, text, start and end position (row counted from 1, column from 0). The
  fifth component of a token, the physical line, is discarded by the source.\<close>

datatype toknum =
    ENDMARKER | NAME | NUMBER | STRING | NEWLINE | INDENT | DEDENT | OP | COMMENT | NL
  | ERRORTOKEN

type_synonym position = "nat \<times> nat"

datatype token =
  Token (t_num: toknum) (t_val: string) (t_start: position) (t_stop: position)

text \<open>\<^verbatim>\<open>tokenize.generate_tokens\<close> is the standard library's: the embedding takes its
  answer as given, namely the tokens the generator yields and, when it raises instead of
  finishing, the exception. \<^verbatim>\<open>TokenError msg\<close> carries the text \<^verbatim>\<open>f'{exc}'\<close>.\<close>

type_synonym tokenizer = "string \<Rightarrow> token list \<times> py_error option"

text \<open>\<^verbatim>\<open>keyword.iskeyword\<close>: membership in \<^verbatim>\<open>keyword.kwlist\<close>.\<close>

definition kwlist :: "string list" where
  "kwlist =
     [''False'', ''None'', ''True'', ''and'', ''as'', ''assert'', ''async'', ''await'',
      ''break'', ''class'', ''continue'', ''def'', ''del'', ''elif'', ''else'', ''except'',
      ''finally'', ''for'', ''from'', ''global'', ''if'', ''import'', ''in'', ''is'',
      ''lambda'', ''nonlocal'', ''not'', ''or'', ''pass'', ''raise'', ''return'', ''try'',
      ''while'', ''with'', ''yield'']"

definition iskeyword :: "string \<Rightarrow> bool" where
  "iskeyword s \<longleftrightarrow> s \<in> set kwlist"

definition begin_indent :: "string \<Rightarrow> position \<Rightarrow> nat \<Rightarrow> string" where
  "begin_indent line start last_pos =
     (if line = [] then
        (if snd start > 0 then line @ replicate (snd start) (CHR '' '') else line)
      else
        (if snd start > last_pos then line @ replicate (snd start - last_pos) (CHR '' '')
         else line))"

definition span :: "string \<Rightarrow> string \<Rightarrow> string" where
  "span text key =
     ''<span class='' @ dquote @ key @ dquote @ ''>'' @ html_escape text @ ''</span>''"

definition span_key :: "string \<Rightarrow> string" where
  "span_key val = span val ''k''"

definition span_str :: "string \<Rightarrow> string" where
  "span_str val = span val ''s''"

definition span_num :: "string \<Rightarrow> string" where
  "span_num val = span val ''n''"

definition span_cmt :: "string \<Rightarrow> string" where
  "span_cmt val = span val ''c''"

text \<open>\<^verbatim>\<open>handle_token\<close> appends to the list \<open>out\<close> in place and returns the new
  accumulator; here it returns both. For a string token that ends on a later row,
  \<^verbatim>\<open>mline[0]\<close> raises IndexError when the token's text has no line at all,
  \<^verbatim>\<open>mline[1:-1]\<close> are the lines between the first and the last, and \<^verbatim>\<open>mline[-1]\<close> is
  the last one.\<close>

definition handle_token ::
  "string list \<Rightarrow> string \<Rightarrow> toknum \<Rightarrow> string \<Rightarrow> position \<Rightarrow> position
     \<Rightarrow> py_error + (string list \<times> string)" where
  "handle_token out line toknum tokval start stop =
     (if toknum = NAME \<and> iskeyword tokval then Inr (out, line @ span_key tokval)
      else if toknum = NUMBER then Inr (out, line @ span_num tokval)
      else if toknum = STRING then
        (if fst stop > fst start then
           (case splitlines tokval of
              [] \<Rightarrow> Inl IndexError
            | m0 # rest \<Rightarrow>
                Inr ((out @ [line @ span_str m0]) @ map span_str (butlast rest),
                     span_str (last (m0 # rest))))
         else Inr (out, line @ span_str tokval))
      else if toknum = COMMENT then Inr (out, line @ span_cmt tokval)
      else if toknum \<in> {NL, NEWLINE, ENDMARKER} then Inr (out @ [line], [])
      else Inr (out, line @ html_escape tokval))"

text \<open>The \<^verbatim>\<open>for\<close> loop of \<^verbatim>\<open>highlight_code\<close> over the tokens the generator yields
  before it ends as \<open>fin\<close> says. It returns the list, the accumulator and the exception
  that left the loop, if any.\<close>

fun highlight_loop ::
  "token list \<Rightarrow> py_error option \<Rightarrow> string list \<Rightarrow> string \<Rightarrow> nat
     \<Rightarrow> string list \<times> string \<times> py_error option" where
  "highlight_loop [] fin out line last_pos = (out, line, fin)"
| "highlight_loop (t # ts) fin out line last_pos =
     (let line1 = begin_indent line (t_start t) last_pos;
          last_pos1 = snd (t_stop t)
      in case handle_token out line1 (t_num t) (t_val t) (t_start t) (t_stop t) of
           Inl e \<Rightarrow> (out, line1, Some e)
         | Inr (out1, line2) \<Rightarrow> highlight_loop ts fin out1 line2 last_pos1)"

text \<open>The \<^verbatim>\<open>try\<close> statement: the flush of a non-empty accumulator is its last
  statement, and the handler catches \<^verbatim>\<open>TokenError\<close> only.\<close>

definition highlight_tokens :: "token list \<times> py_error option \<Rightarrow> py_error + string list" where
  "highlight_tokens tokens =
     (case highlight_loop (fst tokens) (snd tokens) [] [] 0 of
        (out, line, None) \<Rightarrow> Inr (if line \<noteq> [] then out @ [line] else out)
      | (out, line, Some (TokenError msg)) \<Rightarrow> Inr (out @ [msg])
      | (out, line, Some e) \<Rightarrow> Inl e)"

definition highlight_code :: "tokenizer \<Rightarrow> string \<Rightarrow> py_error + string list" where
  "highlight_code generate_tokens source = highlight_tokens (generate_tokens source)"

subsection \<open>Line-Mutation Aggregator\<close>

definition get_added_lines :: "string \<Rightarrow> string" where
  "get_added_lines text =
     str_join newline
       (map (drop 1)
          (filter (\<lambda>line. prefix ''+'' line \<and> \<not> prefix ''+++'' line) (splitlines text)))"

text \<open>The mutant records of the external store, with the attributes the source reads:
  \<^verbatim>\<open>mutant.id\<close>, \<^verbatim>\<open>mutant.line.line\<close>, \<^verbatim>\<open>mutant.line.line_number\<close>, \<^verbatim>\<open>mutant.index\<close>
  and \<^verbatim>\<open>mutant.status\<close>.\<close>

record line_row =
  l_line :: string
  l_line_number :: int

record mutant =
  m_id :: int
  m_line :: line_row
  m_index :: int
  m_status :: string

text \<open>\<^verbatim>\<open>_get_unified_diff(source, filename, RelativeMutationID(line, index, line_number),
  dict_synonyms, update_cache)\<close> is the external diff engine, a parameter here.\<close>

type_synonym 'syn unified_diff =
  "string \<Rightarrow> string \<Rightarrow> string \<times> int \<times> int \<Rightarrow> 'syn \<Rightarrow> bool \<Rightarrow> string"

type_synonym line2mutations = "int \<rightharpoonup> (mutant \<times> string) list"

definition lost_mutation :: "mutant \<Rightarrow> string" where
  "lost_mutation mutant =
     ''Error, lost mutation: ln = '' @ str_int (l_line_number (m_line mutant)) @ '':''
       @ str_int (m_index mutant) @ l_line (m_line mutant)"

text \<open>The body of the loop of \<^verbatim>\<open>get_mutations_for_each_line\<close>. The state is the
  dictionary and the lines printed so far.\<close>

definition add_mutant ::
  "'syn unified_diff \<Rightarrow> string \<Rightarrow> string \<Rightarrow> 'syn \<Rightarrow> line2mutations \<times> string list \<Rightarrow> mutant
     \<Rightarrow> line2mutations \<times> string list" where
  "add_mutant get_unified_diff source filename dict_synonyms state mutant =
     (let line2mutations = fst state;
          printed = snd state;
          diff = get_unified_diff source filename
                   (l_line (m_line mutant), m_index mutant, l_line_number (m_line mutant))
                   dict_synonyms False;
          n = l_line_number (m_line mutant);
          cur = (case line2mutations n of None \<Rightarrow> [] | Some es \<Rightarrow> es)
      in if m_index mutant = int (length cur)
         then (line2mutations(n \<mapsto> cur @ [(mutant, get_added_lines diff)]), printed)
         else (line2mutations(n \<mapsto> cur), printed @ [lost_mutation mutant]))"

text \<open>\<^verbatim>\<open>sorted(mutants, key=lambda m: m.id)\<close> is a stable sort, as \<^const>\<open>sort_key\<close> is.\<close>

definition get_mutations_for_each_line ::
  "'syn unified_diff \<Rightarrow> mutant list \<Rightarrow> string \<Rightarrow> string \<Rightarrow> 'syn
     \<Rightarrow> line2mutations \<times> string list" where
  "get_mutations_for_each_line get_unified_diff mutants source filename dict_synonyms =
     foldl (add_mutant get_unified_diff source filename dict_synonyms) (Map.empty, [])
       (sort_key m_id mutants)"

subsection \<open>Report file names\<close>

text \<open>A path object, reduced to the two attributes the source reads, \<^verbatim>\<open>parent\<close> and
  \<^verbatim>\<open>name\<close>. The argument
  \<open>fn\<close> of \<open>create_hashed_html_filename\<close> is \<^verbatim>\<open>pathlib.Path(file_path).resolve()\<close>,
  which the file system decides; \<^verbatim>\<open>hashlib.md5\<close> is a parameter, from the bytes hashed
  to the hexadecimal digest. \<^verbatim>\<open>out_path / out_fn\<close> is the path of that name in
  \<open>out_path\<close>, since \<open>out_fn\<close> holds no separator when the prefix and the name hold
  none.\<close>

record path =
  path_parent :: string
  path_name :: string

text \<open>\<^verbatim>\<open>s.encode('utf-8')\<close> for code points below 256: one byte below 128, two
  bytes from there on.\<close>

definition encode_utf8_char :: "char \<Rightarrow> string" where
  "encode_utf8_char c =
     (if of_char c < (128::nat) then [c]
      else [char_of (192 + of_char c div (64::nat)), char_of (128 + of_char c mod (64::nat))])"

definition encode_utf8 :: "string \<Rightarrow> string" where
  "encode_utf8 s = concat (map encode_utf8_char s)"

text \<open>\<^verbatim>\<open>s[-12:]\<close>: the last twelve characters, or all of a shorter text.\<close>

definition last12 :: "string \<Rightarrow> string" where
  "last12 s = drop (length s - 12) s"

definition create_hashed_html_filename ::
  "(string \<Rightarrow> string) \<Rightarrow> path \<Rightarrow> string \<Rightarrow> string \<Rightarrow> path" where
  "create_hashed_html_filename md5_hexdigest fn out_path prefix' =
     (let p = encode_utf8 (path_parent fn);
          name = str_replace ''.'' ''_'' (path_name fn);
          out_fn = prefix' @ last12 (md5_hexdigest p) @ ''_'' @ name @ ''.html''
      in \<lparr>path_parent = out_path, path_name = out_fn\<rparr>)"

subsection \<open>Report Renderer\<close>

text \<open>\<^verbatim>\<open>f'{n:{w}}'\<close> for an integer: right-aligned in a field of width \<open>w\<close>.\<close>

definition format_width :: "nat \<Rightarrow> nat \<Rightarrow> string" where
  "format_width n w = replicate (w - length (str_nat n)) (CHR '' '') @ str_nat n"

text \<open>The formatted texts of \<^verbatim>\<open>create_html_from_source\<close>: the row of one mutant, the
  opening of a line's block of mutants, the badge of a line with mutants and the
  paragraph of a line.\<close>

definition mutant_row :: "string \<Rightarrow> nat \<Rightarrow> string \<Rightarrow> string \<Rightarrow> nat \<Rightarrow> nat \<Rightarrow> string" where
  "mutant_row bg ln_w hl_item0 st mut_no index =
     ''<p class='' @ dquote @ ''mt '' @ bg @ dquote @ ''><span class='' @ dquote @ ''ln''
       @ dquote @ ''>'' @ replicate ln_w (CHR '' '') @ '' </span>'' @ hl_item0
       @ ''<span class='' @ dquote @ ''r'' @ dquote @ ''>'' @ st @ '' mt #''
       @ str_nat mut_no @ '' ndx '' @ str_nat index @ ''</span></p>'' @ newline"

definition block_open :: "nat \<Rightarrow> string" where
  "block_open line_no =
     ''<div class='' @ dquote @ ''mts'' @ dquote @ '' id='' @ dquote @ ''d'' @ str_nat line_no
       @ dquote @ '' style='' @ dquote @ ''display: none;'' @ dquote @ ''>'' @ newline"

definition badge :: "string \<Rightarrow> nat \<Rightarrow> nat \<Rightarrow> string" where
  "badge txt_cls line_no n_entries =
     ''<span class='' @ dquote @ ''r '' @ txt_cls @ dquote @ '' onclick='' @ dquote
       @ ''toggle('' @ squote @ ''d'' @ str_nat line_no @ squote @ '');'' @ dquote
       @ ''>#mts '' @ str_nat n_entries @ ''</span>''"

definition paragraph_of :: "nat \<Rightarrow> nat \<Rightarrow> string \<Rightarrow> string \<Rightarrow> string" where
  "paragraph_of line_no ln_w line mut =
     ''<p><span class='' @ dquote @ ''ln'' @ dquote @ ''>'' @ format_width line_no ln_w
       @ '' </span>'' @ line @ mut @ ''</p>'' @ newline"

text \<open>The inner loop over the entries of one line. Its state is the block \<open>muts\<close>,
  the class \<open>txt_cls\<close>, the running number \<open>mut_no\<close> and \<open>index\<close>.\<close>

fun render_entries ::
  "tokenizer \<Rightarrow> nat \<Rightarrow> (mutant \<times> string) list \<Rightarrow> string \<Rightarrow> string \<Rightarrow> nat \<Rightarrow> nat
     \<Rightarrow> py_error + (string \<times> string \<times> nat)" where
  "render_entries generate_tokens ln_w [] muts txt_cls mut_no index =
     Inr (muts, txt_cls, mut_no)"
| "render_entries generate_tokens ln_w (entry # entries) muts txt_cls mut_no index =
     (let mutant = fst entry;
          item = snd entry;
          st = status_text (m_status mutant);
          bg = status_bg (m_status mutant);
          txt_cls1 = combine txt_cls bg;
          mut_no1 = mut_no + 1
      in case highlight_code generate_tokens item of
           Inl e \<Rightarrow> Inl e
         | Inr hl_item \<Rightarrow>
             (case first hl_item of
                Inl e \<Rightarrow> Inl e
              | Inr hl_item0 \<Rightarrow>
                  render_entries generate_tokens ln_w entries
                    (muts @ mutant_row bg ln_w hl_item0 st mut_no1 index)
                    txt_cls1 mut_no1 (index + 1)))"

text \<open>The outer loop, over the highlighted lines. \<open>line_no\<close> is the counter after its
  increment; the state is \<open>result\<close> and \<open>mut_no\<close>.\<close>

fun render_lines ::
  "tokenizer \<Rightarrow> nat \<Rightarrow> line2mutations \<Rightarrow> string list \<Rightarrow> nat \<Rightarrow> string \<Rightarrow> nat
     \<Rightarrow> py_error + string" where
  "render_lines generate_tokens ln_w line2mutations [] line_no result mut_no = Inr result"
| "render_lines generate_tokens ln_w line2mutations (line # hl_code) line_no result mut_no =
     (case line2mutations (int line_no) of
        None \<Rightarrow>
          render_lines generate_tokens ln_w line2mutations hl_code (line_no + 1)
            (result @ paragraph_of line_no ln_w line []) mut_no
      | Some entries \<Rightarrow>
          (case render_entries generate_tokens ln_w entries (block_open line_no)
                  ''bggreen'' mut_no 0 of
             Inl e \<Rightarrow> Inl e
           | Inr (muts, txt_cls, mut_no1) \<Rightarrow>
               render_lines generate_tokens ln_w line2mutations hl_code (line_no + 1)
                 (result
                    @ paragraph_of line_no ln_w line
                        (badge (str_replace ''bg'' ''txt'' txt_cls) line_no (length entries))
                    @ (muts @ ''</div>'' @ newline))
                 mut_no1))"

text \<open>\<open>html_content\<close> is the page template, as the text before and the text after its
  placeholder \<^verbatim>\<open>{highlighted_code}\<close>. The result is the text written to the report.\<close>

definition create_html_from_source ::
  "tokenizer \<Rightarrow> string \<times> string \<Rightarrow> string list \<Rightarrow> line2mutations \<Rightarrow> py_error + string" where
  "create_html_from_source generate_tokens html_content hl_code line2mutations =
     (let ln_w = length (str_nat (length hl_code)) + 1
      in case render_lines generate_tokens ln_w line2mutations hl_code 0 [] 0 of
           Inl e \<Rightarrow> Inl e
         | Inr result \<Rightarrow> Inr (fst html_content @ result @ snd html_content))"

subsection \<open>Notions for the properties of the status lattice\<close>


subsection \<open>Notions for the properties of the aggregator\<close>

text \<open>The fragment the loop pairs with a mutant: the added lines of its diff.\<close>

definition fragment_of :: "'syn unified_diff \<Rightarrow> string \<Rightarrow> string \<Rightarrow> 'syn \<Rightarrow> mutant \<Rightarrow> string" where
  "fragment_of get_unified_diff source filename dict_synonyms mutant =
     get_added_lines
       (get_unified_diff source filename
          (l_line (m_line mutant), m_index mutant, l_line_number (m_line mutant))
          dict_synonyms False)"

text \<open>The entries of a line, none for a line the dictionary does not hold.\<close>

definition entries_at :: "line2mutations \<Rightarrow> int \<Rightarrow> (mutant \<times> string) list" where
  "entries_at line2mutations n = (case line2mutations n of None \<Rightarrow> [] | Some es \<Rightarrow> es)"

text \<open>The consistency of the dictionary: the entry at position \<open>i\<close> of the list of
  line \<open>n\<close> is a mutant of \<open>S\<close> on line \<open>n\<close> with index \<open>i\<close>.\<close>

definition entries_ok :: "mutant set \<Rightarrow> line2mutations \<Rightarrow> bool" where
  "entries_ok S l2m \<longleftrightarrow>
     (\<forall>n es. l2m n = Some es \<longrightarrow>
        (\<forall>i < length es. m_index (fst (es ! i)) = int i
            \<and> l_line_number (m_line (fst (es ! i))) = n \<and> fst (es ! i) \<in> S))"

text \<open>The number of entries of the dictionary, and the number of mutants a state of
  the loop accounts for: those entered and those reported.\<close>

definition total_entries :: "line2mutations \<Rightarrow> nat" where
  "total_entries l2m = (\<Sum>n \<in> dom l2m. length (entries_at l2m n))"

definition accounted :: "line2mutations \<times> string list \<Rightarrow> nat" where
  "accounted st = total_entries (fst st) + length (snd st)"

subsection \<open>Notions for the properties of the highlighter\<close>

text \<open>A string token that ends on a later row than it starts on.\<close>

definition is_multiline_string :: "token \<Rightarrow> bool" where
  "is_multiline_string t \<longleftrightarrow> t_num t = STRING \<and> fst (t_stop t) > fst (t_start t)"

text \<open>What \<^verbatim>\<open>tokenize.generate_tokens\<close> answers when it ends in one of the two ways
  \<^verbatim>\<open>highlight_code\<close> provides for: it finishes, and then the end marker is its last token,
  or it raises \<^verbatim>\<open>TokenError\<close>. The text of a string token over several rows is never
  empty.\<close>

definition tokens_complete :: "token list \<times> py_error option \<Rightarrow> bool" where
  "tokens_complete tokens \<longleftrightarrow>
     (case snd tokens of
        None \<Rightarrow> fst tokens \<noteq> [] \<and> t_num (last (fst tokens)) = ENDMARKER
      | Some (TokenError msg) \<Rightarrow> True
      | Some e \<Rightarrow> False)
     \<and> (\<forall>t \<in> set (fst tokens). is_multiline_string t \<longrightarrow> t_val t \<noteq> [])"

text \<open>A text whose only line boundaries are line feeds, the boundaries at which the
  tokenizer counts a row.\<close>

definition only_LF :: "string \<Rightarrow> bool" where
  "only_LF s \<longleftrightarrow> list_all (\<lambda>c. is_linebreak c \<longrightarrow> c = CHR 0x0A) s"

text \<open>The tokens of a physical line of identifiers and blanks: names that are no
  keywords, and the \<^verbatim>\<open>INDENT\<close> and \<^verbatim>\<open>DEDENT\<close> tokens the tokenizer puts before the first
  name of a line whose indentation changes.\<close>

definition is_plain :: "token \<Rightarrow> bool" where
  "is_plain t \<longleftrightarrow>
     (t_num t = NAME \<and> \<not> iskeyword (t_val t)) \<or> t_num t = INDENT \<or> t_num t = DEDENT"

text \<open>The blanks between the tokens of a line: the space, and with the tab and the form
  feed the whitespace the tokenizer skips.\<close>

definition is_space :: "char \<Rightarrow> bool" where
  "is_space c \<longleftrightarrow> c = CHR '' ''"

definition is_whitespace :: "char \<Rightarrow> bool" where
  "is_whitespace c \<longleftrightarrow> c \<in> {CHR '' '', CHR 0x09, CHR 0x0C}"

text \<open>How the tokenizer lays the tokens out on the physical line \<open>s\<close> (without its
  line end), from column \<open>c\<close> on: each token's text is the text of the line between the
  token's start and end columns, the tokens follow each other, and whatever lies between
  them and after the last one are blanks, as \<open>gap\<close> says.\<close>

fun lays_out :: "(char \<Rightarrow> bool) \<Rightarrow> string \<Rightarrow> nat \<Rightarrow> token list \<Rightarrow> bool" where
  "lays_out gap s c [] \<longleftrightarrow> c \<le> length s \<and> list_all gap (drop c s)"
| "lays_out gap s c (t # ts) \<longleftrightarrow>
     c \<le> snd (t_start t)
     \<and> list_all gap (take (snd (t_start t) - c) (drop c s))
     \<and> snd (t_stop t) = snd (t_start t) + length (t_val t)
     \<and> snd (t_stop t) \<le> length s
     \<and> take (length (t_val t)) (drop (snd (t_start t)) s) = t_val t
     \<and> lays_out gap s (snd (t_stop t)) ts"

subsection \<open>Notions for the properties of the report file names\<close>

text \<open>The digits of a hexadecimal digest, and sixteen letters for the names of
  directories.\<close>

definition hexdigits :: "char set" where
  "hexdigits = set ''0123456789abcdef''"

definition path_letters :: string where
  "path_letters = ''abcdefghijklmnop''"

section \<open>Properties\<close>

subsection \<open>Status lattice\<close>

lemmas highlight_defs =
  highlight_tokens_def handle_token_def begin_indent_def span_key_def span_str_def
  span_num_def span_cmt_def span_def html_escape_def escape_char_def iskeyword_def kwlist_def
  splitlines_def is_linebreak_def dquote_def squote_def newline_def Let_def

lemmas status_defs =
  BAD_SURVIVED_def BAD_TIMEOUT_def SKIPPED_def UNTESTED_def OK_SUSPICIOUS_def OK_KILLED_def

lemmas lattice_defs =
  combine_def status_bg_def status_text_def dict_get_def COMBINE_BGS_def MUTANT_STATUS2BG_def
  MUTANT_STATUS2TEXT_def status_defs



text \<open>C1. The merge table of the spec has green + gray = green. In the source, gray
  is \<^verbatim>\<open>'bgray'\<close> as the class of a skipped mutant and as a row of \<^verbatim>\<open>COMBINE_BGS\<close>, but
  \<^verbatim>\<open>'bggray'\<close> as a column and as a result. So folding the class of a skipped mutant
  into the starting class green finds no column and gives red.\<close>

theorem combine_green_with_skipped:
  "status_bg SKIPPED = ''bgray'' \<and> combine ''bggreen'' (status_bg SKIPPED) = ''bgred''"
  by (simp add: lattice_defs)







text \<open>C9. The lookups of the label and of the colour class are total functions of the
  status; a status that is none of the six enumerated ones gets the label
  \<^verbatim>\<open>'--ERROR--'\<close> and the class red.\<close>

theorem status_lookup_unrecognized:
  assumes "status \<notin> {BAD_SURVIVED, BAD_TIMEOUT, SKIPPED, UNTESTED, OK_SUSPICIOUS, OK_KILLED}"
  shows "status_text status = ''--ERROR--'' \<and> status_bg status = ''bgred''"
  using assms
  by (simp add: status_text_def status_bg_def dict_get_def MUTANT_STATUS2TEXT_def
      MUTANT_STATUS2BG_def)

theorem status_lookup_unrecognized_witness:
  "''crashed'' \<notin> {BAD_SURVIVED, BAD_TIMEOUT, SKIPPED, UNTESTED, OK_SUSPICIOUS, OK_KILLED}
   \<and> status_text ''crashed'' = ''--ERROR--'' \<and> status_bg ''crashed'' = ''bgred''"
proof -
  have h: "''crashed'' \<notin> {BAD_SURVIVED, BAD_TIMEOUT, SKIPPED, UNTESTED, OK_SUSPICIOUS, OK_KILLED}"
    by (simp add: status_defs)
  from status_lookup_unrecognized [OF h] h show ?thesis by simp
qed

subsection \<open>Line-Mutation Aggregator\<close>

lemma add_mutant_accept:
  "m_index m = int (length (entries_at l2m (l_line_number (m_line m)))) \<Longrightarrow>
   add_mutant D src fname syn (l2m, printed) m =
     (l2m(l_line_number (m_line m) \<mapsto>
        entries_at l2m (l_line_number (m_line m)) @ [(m, fragment_of D src fname syn m)]), printed)"
  by (simp add: add_mutant_def entries_at_def fragment_of_def Let_def)

lemma add_mutant_reject:
  "m_index m \<noteq> int (length (entries_at l2m (l_line_number (m_line m)))) \<Longrightarrow>
   add_mutant D src fname syn (l2m, printed) m =
     (l2m(l_line_number (m_line m) \<mapsto> entries_at l2m (l_line_number (m_line m))),
      printed @ [lost_mutation m])"
  by (simp add: add_mutant_def entries_at_def fragment_of_def Let_def)

lemma add_mutant_entries_ok:
  assumes "entries_ok S (fst st)" "m \<in> S"
  shows "entries_ok S (fst (add_mutant D src fname syn st m))"
proof (cases st)
  case (Pair l2m printed)
  show ?thesis
  proof (cases "m_index m = int (length (entries_at l2m (l_line_number (m_line m))))")
    case True
    have ok: "entries_ok S l2m" using assms Pair by simp
    show ?thesis
      unfolding Pair add_mutant_accept[OF True] entries_ok_def
    proof (intro allI impI)
      fix n es i
      assume a: "fst (l2m(l_line_number (m_line m) \<mapsto>
              entries_at l2m (l_line_number (m_line m)) @ [(m, fragment_of D src fname syn m)]),
            printed) n = Some es" and i: "i < length es"
      show "m_index (fst (es ! i)) = int i \<and> l_line_number (m_line (fst (es ! i))) = n
              \<and> fst (es ! i) \<in> S"
      proof (cases "n = l_line_number (m_line m)")
        case False
        with a have "l2m n = Some es" by simp
        with ok i show ?thesis unfolding entries_ok_def by blast
      next
        case n: True
        let ?cur = "entries_at l2m n"
        from a n have es: "es = ?cur @ [(m, fragment_of D src fname syn m)]" by simp
        show ?thesis
        proof (cases "i < length ?cur")
          case True
          then have "l2m n = Some ?cur" by (auto simp: entries_at_def split: option.splits)
          with ok True have "m_index (fst (?cur ! i)) = int i
              \<and> l_line_number (m_line (fst (?cur ! i))) = n \<and> fst (?cur ! i) \<in> S"
            unfolding entries_ok_def by blast
          with True es show ?thesis by (simp add: nth_append)
        next
          case False
          with i es have "i = length ?cur" by simp
          with es \<open>m_index m = _\<close> n assms(2) show ?thesis by (simp add: nth_append)
        qed
      qed
    qed
  next
    case False
    have ok: "entries_ok S l2m" using assms Pair by simp
    show ?thesis
      unfolding Pair add_mutant_reject[OF False]
      using ok by (auto simp: entries_ok_def entries_at_def split: option.splits if_splits)
  qed
qed

lemma foldl_add_mutant_entries_ok:
  "entries_ok S (fst st) \<Longrightarrow> set ms \<subseteq> S \<Longrightarrow>
   entries_ok S (fst (foldl (add_mutant D src fname syn) st ms))"
  by (induction ms arbitrary: st) (simp_all add: add_mutant_entries_ok)

lemma add_mutant_printed:
  assumes "set (snd st) \<subseteq> lost_mutation ` S" "m \<in> S"
  shows "set (snd (add_mutant D src fname syn st m)) \<subseteq> lost_mutation ` S"
  using assms by (auto simp: add_mutant_def Let_def)

lemma foldl_add_mutant_printed:
  "set (snd st) \<subseteq> lost_mutation ` S \<Longrightarrow> set ms \<subseteq> S \<Longrightarrow>
   set (snd (foldl (add_mutant D src fname syn) st ms)) \<subseteq> lost_mutation ` S"
  by (induction ms arbitrary: st) (simp_all add: add_mutant_printed)

lemma get_mutations_printed:
  "set (snd (get_mutations_for_each_line D mutants src fname syn))
     \<subseteq> lost_mutation ` set mutants"
  unfolding get_mutations_for_each_line_def
  by (rule foldl_add_mutant_printed) simp_all

lemma get_mutations_entries_ok:
  "entries_ok (set mutants) (fst (get_mutations_for_each_line D mutants src fname syn))"
  unfolding get_mutations_for_each_line_def
  by (rule foldl_add_mutant_entries_ok) (simp_all add: entries_ok_def)

lemma sum_split_at:
  fixes f :: "int \<Rightarrow> nat"
  assumes "finite D" "n \<notin> D \<Longrightarrow> f n = 0"
  shows "sum f D = f n + sum f (D - {n})"
proof (cases "n \<in> D")
  case True
  with assms(1) show ?thesis by (simp add: sum.remove)
next
  case False
  with assms(2) show ?thesis by simp
qed

lemma total_entries_update:
  assumes "finite (dom l2m)"
  shows "total_entries (l2m(n \<mapsto> es)) + length (entries_at l2m n) = total_entries l2m + length es"
proof -
  let ?f = "\<lambda>k. length (entries_at l2m k)"
  let ?g = "\<lambda>k. length (entries_at (l2m(n \<mapsto> es)) k)"
  have same: "sum ?g (dom l2m - {n}) = sum ?f (dom l2m - {n})"
    by (rule sum.cong) (simp_all add: entries_at_def)
  have "total_entries (l2m(n \<mapsto> es)) = sum ?g (insert n (dom l2m))"
    by (simp add: total_entries_def)
  also have "\<dots> = ?g n + sum ?g (dom l2m - {n})"
    using assms by (rule sum.insert_remove)
  also have "\<dots> = length es + sum ?f (dom l2m - {n})"
    using same by (simp add: entries_at_def)
  finally have new: "total_entries (l2m(n \<mapsto> es)) = length es + sum ?f (dom l2m - {n})" .
  have "n \<notin> dom l2m \<Longrightarrow> ?f n = 0"
    by (auto simp: entries_at_def split: option.splits)
  with assms have old: "total_entries l2m = ?f n + sum ?f (dom l2m - {n})"
    unfolding total_entries_def by (rule sum_split_at)
  from new old show ?thesis by simp
qed

lemma add_mutant_accounted:
  assumes "finite (dom (fst st))"
  shows "finite (dom (fst (add_mutant D src fname syn st m)))
         \<and> accounted (add_mutant D src fname syn st m) = accounted st + 1"
proof (cases st)
  case (Pair l2m printed)
  with assms have fin: "finite (dom l2m)" by simp
  let ?n = "l_line_number (m_line m)"
  let ?cur = "entries_at l2m ?n"
  show ?thesis
  proof (cases "m_index m = int (length ?cur)")
    case True
    from total_entries_update[OF fin, of ?n "?cur @ [(m, fragment_of D src fname syn m)]"]
    show ?thesis
      unfolding Pair add_mutant_accept[OF True] using fin by (simp add: accounted_def)
  next
    case False
    from total_entries_update[OF fin, of ?n ?cur]
    show ?thesis
      unfolding Pair add_mutant_reject[OF False] using fin by (simp add: accounted_def)
  qed
qed

lemma foldl_add_mutant_accounted:
  "finite (dom (fst st)) \<Longrightarrow>
   accounted (foldl (add_mutant D src fname syn) st ms) = accounted st + length ms"
proof (induction ms arbitrary: st)
  case Nil
  then show ?case by simp
next
  case (Cons m ms)
  from add_mutant_accounted[OF Cons.prems, of D src fname syn m] Cons.IH
  show ?case by simp
qed

lemma get_mutations_accounted:
  "accounted (get_mutations_for_each_line D mutants src fname syn) = length mutants"
proof -
  have "finite (dom (fst (Map.empty :: line2mutations, [] :: string list)))" by simp
  from foldl_add_mutant_accounted[OF this, of D src fname syn "sort_key m_id mutants"]
  show ?thesis
    unfolding get_mutations_for_each_line_def
    by (simp add: accounted_def total_entries_def)
qed

lemma entries_at_upd: "entries_at (l2m(n \<mapsto> es)) n = es"
  by (simp add: entries_at_def)

lemma foldl_add_mutant_consecutive:
  assumes "\<forall>m \<in> set ms. l_line_number (m_line m) = n"
    and "length (entries_at l2m n) = k"
    and "map m_index ms = map int [k ..< k + length ms]"
  shows "foldl (add_mutant D src fname syn) (l2m, printed) ms =
           (if ms = [] then l2m
            else l2m(n \<mapsto> entries_at l2m n @ map (\<lambda>m. (m, fragment_of D src fname syn m)) ms),
            printed)"
  using assms
proof (induction ms arbitrary: l2m k)
  case Nil
  then show ?case by simp
next
  case (Cons m ms)
  let ?cur = "entries_at l2m n"
  let ?l2m1 = "l2m(n \<mapsto> ?cur @ [(m, fragment_of D src fname syn m)])"
  from Cons.prems have n: "l_line_number (m_line m) = n" by simp
  have upt: "[k ..< k + length (m # ms)] = k # [Suc k ..< Suc k + length ms]"
    by (subst upt_conv_Cons) (simp_all del: upt_Suc)
  from Cons.prems(3) have idx: "m_index m = int k"
    and rest: "map m_index ms = map int [Suc k ..< Suc k + length ms]"
    unfolding upt by simp_all
  have len1: "length (entries_at ?l2m1 n) = Suc k"
    using Cons.prems(2) by (simp add: entries_at_def)
  have step: "add_mutant D src fname syn (l2m, printed) m = (?l2m1, printed)"
    using add_mutant_accept[of m l2m D src fname syn printed] idx n Cons.prems(2) by simp
  have all: "\<forall>m \<in> set ms. l_line_number (m_line m) = n"
    using Cons.prems(1) by simp
  have "foldl (add_mutant D src fname syn) (?l2m1, printed) ms =
          (if ms = [] then ?l2m1
            else ?l2m1(n \<mapsto> entries_at ?l2m1 n @ map (\<lambda>m. (m, fragment_of D src fname syn m)) ms),
            printed)"
    using all len1 rest by (rule Cons.IH)
  then have ih: "foldl (add_mutant D src fname syn) (?l2m1, printed) ms =
          (if ms = [] then ?l2m1
            else l2m(n \<mapsto> ?cur @ map (\<lambda>m. (m, fragment_of D src fname syn m)) (m # ms)),
            printed)"
    by (simp add: entries_at_upd)
  show ?case
  proof (cases "ms = []")
    case True
    with step show ?thesis by (simp add: fun_upd_def)
  next
    case False
    with step ih show ?thesis by (simp add: fun_upd_def)
  qed
qed

lemma consecutive_indices_kept:
  assumes "sort_key m_id mutants = ms"
    and "\<forall>m \<in> set ms. l_line_number (m_line m) = n"
    and "map m_index ms = map int [0 ..< length ms]"
    and "ms \<noteq> []"
  shows "get_mutations_for_each_line D mutants src fname syn =
           (Map.empty(n \<mapsto> map (\<lambda>m. (m, fragment_of D src fname syn m)) ms), [])"
proof -
  have "length (entries_at Map.empty n) = 0" by (simp add: entries_at_def)
  from foldl_add_mutant_consecutive[OF assms(2) this, of D src fname syn "[]"] assms(3,4)
  show ?thesis
    unfolding get_mutations_for_each_line_def assms(1) by (simp add: entries_at_def)
qed

lemma gap_is_reported:
  assumes "sort_key m_id mutants = [m0, m1]"
    and "l_line_number (m_line m0) = n" "l_line_number (m_line m1) = n"
    and "m_index m0 = 0" "m_index m1 = 2"
  shows "get_mutations_for_each_line D mutants src fname syn =
           (Map.empty(n \<mapsto> [(m0, fragment_of D src fname syn m0)]), [lost_mutation m1])"
  unfolding get_mutations_for_each_line_def assms(1)
  using assms(2-)
  by (simp add: add_mutant_def Let_def fragment_of_def)

text \<open>C3. For every list of mutants of a file, in the dictionary the aggregator returns
  the entry at position \<open>i\<close> of a line's list is a mutant of that line with index
  \<open>i\<close>: a mutant is entered only where its index is the length of the list. Every
  mutant is either entered or reported, and every report is the printed message of a
  mutant (no exception is raised): a report skips the mutant and the loop goes on.
  Mutants that come, in the order of their identifiers, with the indices 0, 1, 2 on one
  line give the three entries in that order and no report; with the indices 0, 2 they
  give one entry and one report, which holds the line number, the index and the line's
  text.\<close>

theorem get_mutations_checks_indices:
  "entries_ok (set mutants) (fst (get_mutations_for_each_line D mutants src fname syn))
   \<and> total_entries (fst (get_mutations_for_each_line D mutants src fname syn))
       + length (snd (get_mutations_for_each_line D mutants src fname syn)) = length mutants
   \<and> set (snd (get_mutations_for_each_line D mutants src fname syn))
       \<subseteq> lost_mutation ` set mutants
   \<and> (sort_key m_id mutants = [ma, mb, mc]
        \<and> l_line_number (m_line ma) = n \<and> l_line_number (m_line mb) = n
        \<and> l_line_number (m_line mc) = n
        \<and> m_index ma = 0 \<and> m_index mb = 1 \<and> m_index mc = 2 \<longrightarrow>
      fst (get_mutations_for_each_line D mutants src fname syn) n =
        Some [(ma, fragment_of D src fname syn ma), (mb, fragment_of D src fname syn mb),
              (mc, fragment_of D src fname syn mc)]
      \<and> snd (get_mutations_for_each_line D mutants src fname syn) = [])
   \<and> (sort_key m_id mutants = [ma, mc]
        \<and> l_line_number (m_line ma) = n \<and> l_line_number (m_line mc) = n
        \<and> m_index ma = 0 \<and> m_index mc = 2 \<longrightarrow>
      fst (get_mutations_for_each_line D mutants src fname syn) n =
        Some [(ma, fragment_of D src fname syn ma)]
      \<and> snd (get_mutations_for_each_line D mutants src fname syn) =
          [''Error, lost mutation: ln = '' @ str_int n @ '':'' @ str_int 2
             @ l_line (m_line mc)])"
proof (intro conjI impI)
  show "entries_ok (set mutants) (fst (get_mutations_for_each_line D mutants src fname syn))"
    by (rule get_mutations_entries_ok)
  show "total_entries (fst (get_mutations_for_each_line D mutants src fname syn))
       + length (snd (get_mutations_for_each_line D mutants src fname syn)) = length mutants"
    using get_mutations_accounted[of D mutants src fname syn] by (simp add: accounted_def)
  show "set (snd (get_mutations_for_each_line D mutants src fname syn))
       \<subseteq> lost_mutation ` set mutants"
    by (rule get_mutations_printed)
next
  assume a: "sort_key m_id mutants = [ma, mb, mc]
        \<and> l_line_number (m_line ma) = n \<and> l_line_number (m_line mb) = n
        \<and> l_line_number (m_line mc) = n
        \<and> m_index ma = 0 \<and> m_index mb = 1 \<and> m_index mc = 2"
  have "get_mutations_for_each_line D mutants src fname syn =
           (Map.empty(n \<mapsto> map (\<lambda>m. (m, fragment_of D src fname syn m)) [ma, mb, mc]), [])"
    by (rule consecutive_indices_kept) (use a in \<open>simp_all add: upt_rec\<close>)
  then show "fst (get_mutations_for_each_line D mutants src fname syn) n =
        Some [(ma, fragment_of D src fname syn ma), (mb, fragment_of D src fname syn mb),
              (mc, fragment_of D src fname syn mc)]"
    and "snd (get_mutations_for_each_line D mutants src fname syn) = []"
    by simp_all
next
  assume a: "sort_key m_id mutants = [ma, mc]
        \<and> l_line_number (m_line ma) = n \<and> l_line_number (m_line mc) = n
        \<and> m_index ma = 0 \<and> m_index mc = 2"
  then have "get_mutations_for_each_line D mutants src fname syn =
           (Map.empty(n \<mapsto> [(ma, fragment_of D src fname syn ma)]), [lost_mutation mc])"
    by (intro gap_is_reported) simp_all
  with a show "fst (get_mutations_for_each_line D mutants src fname syn) n =
        Some [(ma, fragment_of D src fname syn ma)]"
    and "snd (get_mutations_for_each_line D mutants src fname syn) =
          [''Error, lost mutation: ln = '' @ str_int n @ '':'' @ str_int 2
             @ l_line (m_line mc)]"
    by (simp_all add: lost_mutation_def)
qed

lemma frag_example:
  "get_added_lines (''+x = 2'') = ''x = 2''"
  by (simp add: get_added_lines_def splitlines_def newline_def is_linebreak_def)

theorem get_mutations_checks_indices_witness:
  "let line = \<lparr>l_line = ''x = 1'', l_line_number = 5\<rparr>;
       A = \<lparr>m_id = 7, m_line = line, m_index = 2, m_status = OK_KILLED\<rparr>;
       B = \<lparr>m_id = 3, m_line = line, m_index = 0, m_status = BAD_SURVIVED\<rparr>;
       C = \<lparr>m_id = 5, m_line = line, m_index = 1, m_status = SKIPPED\<rparr>;
       diff = (\<lambda>source filename rid syn upd. ''+x = 2'')
   in fst (get_mutations_for_each_line diff [A, B, C] ''x = 1'' ''a.py'' ()) 5 =
        Some [(B, ''x = 2''), (C, ''x = 2''), (A, ''x = 2'')]
      \<and> snd (get_mutations_for_each_line diff [A, B, C] ''x = 1'' ''a.py'' ()) = []
      \<and> fst (get_mutations_for_each_line diff [A, B] ''x = 1'' ''a.py'' ()) 5 =
        Some [(B, ''x = 2'')]
      \<and> snd (get_mutations_for_each_line diff [A, B] ''x = 1'' ''a.py'' ()) =
        [''Error, lost mutation: ln = 5:2x = 1'']"
proof -
  let ?line = "\<lparr>l_line = ''x = 1'', l_line_number = 5\<rparr>"
  let ?A = "\<lparr>m_id = 7, m_line = ?line, m_index = 2, m_status = OK_KILLED\<rparr>"
  let ?B = "\<lparr>m_id = 3, m_line = ?line, m_index = 0, m_status = BAD_SURVIVED\<rparr>"
  let ?C = "\<lparr>m_id = 5, m_line = ?line, m_index = 1, m_status = SKIPPED\<rparr>"
  let ?D = "(\<lambda>source filename rid syn upd. ''+x = 2'') :: unit unified_diff"
  have s3: "sort_key m_id [?A, ?B, ?C] = [?B, ?C, ?A]" by simp
  have s2: "sort_key m_id [?A, ?B] = [?B, ?A]" by simp
  have f: "\<And>m. fragment_of ?D ''x = 1'' ''a.py'' () m = ''x = 2''"
    unfolding fragment_of_def by (rule frag_example)
  have m: "str_int 5 = ''5''" "str_int 2 = ''2''"
    by (simp_all add: str_int_def digit_char_def)
  from get_mutations_checks_indices
      [where D = ?D and src = "''x = 1''" and fname = "''a.py''" and syn = "()"
         and mutants = "[?A, ?B, ?C]" and ma = ?B and mb = ?C and mc = ?A and n = 5] s3
  have three: "fst (get_mutations_for_each_line ?D [?A, ?B, ?C] ''x = 1'' ''a.py'' ()) 5 =
       Some [(?B, ''x = 2''), (?C, ''x = 2''), (?A, ''x = 2'')]
     \<and> snd (get_mutations_for_each_line ?D [?A, ?B, ?C] ''x = 1'' ''a.py'' ()) = []"
    by (simp add: f)
  from get_mutations_checks_indices
      [where D = ?D and src = "''x = 1''" and fname = "''a.py''" and syn = "()"
         and mutants = "[?A, ?B]" and ma = ?B and mb = ?C and mc = ?A and n = 5] s2
  have gap: "fst (get_mutations_for_each_line ?D [?A, ?B] ''x = 1'' ''a.py'' ()) 5 =
       Some [(?B, ''x = 2'')]
     \<and> snd (get_mutations_for_each_line ?D [?A, ?B] ''x = 1'' ''a.py'' ())
         = [''Error, lost mutation: ln = 5:2x = 1'']"
    by (simp add: f m)
  from three gap show ?thesis by (simp add: Let_def)
qed

subsection \<open>Tokenizer/Highlighter\<close>

lemma splitlines_from_nonempty: "cur \<noteq> [] \<or> s \<noteq> [] \<Longrightarrow> splitlines_from cur s \<noteq> []"
proof (induction s arbitrary: cur)
  case Nil
  then show ?case by simp
next
  case (Cons c cs)
  have "cur @ [c] \<noteq> [] \<or> cs \<noteq> []" by simp
  from Cons.IH[OF this] show ?case
    by (subst splitlines_from.simps) (simp del: splitlines_from.simps split: list.splits)
qed

lemma splitlines_Nil_iff: "splitlines s = [] \<longleftrightarrow> s = []"
  using splitlines_from_nonempty[of "[]" s] by (auto simp: splitlines_def)

lemma handle_token_returns:
  assumes "\<not> (num = STRING \<and> fst sp > fst st \<and> val = [])"
  shows "\<exists>out' line'. handle_token out line num val st sp = Inr (out', line')
           \<and> (out \<noteq> [] \<longrightarrow> out' \<noteq> [])
           \<and> (num \<in> {NL, NEWLINE, ENDMARKER} \<longrightarrow> out' \<noteq> [])"
  using assms
  by (auto simp: handle_token_def splitlines_Nil_iff split: list.splits)

text \<open>The loop leaves only as the tokenizer ends, and a line once flushed stays.\<close>

lemma highlight_loop_returns:
  assumes "\<forall>t \<in> set toks. is_multiline_string t \<longrightarrow> t_val t \<noteq> []"
  shows "\<exists>out' line'. highlight_loop toks fin out line last_pos = (out', line', fin)
           \<and> (out \<noteq> [] \<longrightarrow> out' \<noteq> [])
           \<and> (toks \<noteq> [] \<and> t_num (last toks) \<in> {NL, NEWLINE, ENDMARKER} \<longrightarrow> out' \<noteq> [])"
  using assms
proof (induction toks arbitrary: out line last_pos)
  case Nil
  then show ?case by simp
next
  case (Cons t ts)
  let ?line1 = "begin_indent line (t_start t) last_pos"
  from Cons.prems have "\<not> (t_num t = STRING \<and> fst (t_stop t) > fst (t_start t) \<and> t_val t = [])"
    by (auto simp: is_multiline_string_def)
  from handle_token_returns[OF this, of out ?line1]
  obtain out1 line2 where
    h: "handle_token out ?line1 (t_num t) (t_val t) (t_start t) (t_stop t) = Inr (out1, line2)"
    and keep: "out \<noteq> [] \<longrightarrow> out1 \<noteq> []"
    and flush: "t_num t \<in> {NL, NEWLINE, ENDMARKER} \<longrightarrow> out1 \<noteq> []"
    by blast
  from Cons.prems have "\<forall>t \<in> set ts. is_multiline_string t \<longrightarrow> t_val t \<noteq> []" by simp
  from Cons.IH[OF this, of out1 line2 "snd (t_stop t)"]
  obtain out' line' where
    r: "highlight_loop ts fin out1 line2 (snd (t_stop t)) = (out', line', fin)"
    and keep': "out1 \<noteq> [] \<longrightarrow> out' \<noteq> []"
    and flush': "ts \<noteq> [] \<and> t_num (last ts) \<in> {NL, NEWLINE, ENDMARKER} \<longrightarrow> out' \<noteq> []"
    by blast
  have "highlight_loop (t # ts) fin out line last_pos = (out', line', fin)"
    using h r by (simp add: Let_def)
  moreover have "out \<noteq> [] \<longrightarrow> out' \<noteq> []" using keep keep' by blast
  moreover have "t_num (last (t # ts)) \<in> {NL, NEWLINE, ENDMARKER} \<longrightarrow> out' \<noteq> []"
    using flush keep' flush' by (cases "ts = []") auto
  ultimately show ?case by simp
qed

text \<open>A \<^verbatim>\<open>TokenError\<close> of the tokenizer is not propagated: the result is the list of
  the lines flushed so far, followed by the error's text.\<close>

lemma highlight_tokens_TokenError:
  assumes "\<forall>t \<in> set toks. is_multiline_string t \<longrightarrow> t_val t \<noteq> []"
  shows "highlight_tokens (toks, Some (TokenError msg)) =
           Inr (fst (highlight_loop toks (Some (TokenError msg)) [] [] 0) @ [msg])"
proof -
  from highlight_loop_returns[OF assms, of "Some (TokenError msg)" "[]" "[]" 0]
  obtain out' line' where
    "highlight_loop toks (Some (TokenError msg)) [] [] 0 = (out', line', Some (TokenError msg))"
    by blast
  then show ?thesis by (simp add: highlight_tokens_def)
qed

lemma highlight_tokens_nonempty:
  assumes "tokens_complete (toks, fin)"
  shows "\<exists>l ls. highlight_tokens (toks, fin) = Inr (l # ls)"
proof -
  from assms have ok: "\<forall>t \<in> set toks. is_multiline_string t \<longrightarrow> t_val t \<noteq> []"
    by (simp add: tokens_complete_def)
  from highlight_loop_returns[OF ok, of fin "[]" "[]" 0]
  obtain out' line' where
    r: "highlight_loop toks fin [] [] 0 = (out', line', fin)"
    and flush: "toks \<noteq> [] \<and> t_num (last toks) \<in> {NL, NEWLINE, ENDMARKER} \<longrightarrow> out' \<noteq> []"
    by blast
  show ?thesis
  proof (cases fin)
    case None
    with assms flush have "out' \<noteq> []" by (simp add: tokens_complete_def)
    then obtain l ls where "out' = l # ls" by (cases out') auto
    with r None show ?thesis by (simp add: highlight_tokens_def)
  next
    case (Some e)
    with assms obtain msg where e: "e = TokenError msg"
      by (cases e) (simp_all add: tokens_complete_def)
    have "out' @ [msg] \<noteq> []" by simp
    then obtain l ls where "out' @ [msg] = l # ls" by (cases "out' @ [msg]") auto
    with r Some e show ?thesis by (simp add: highlight_tokens_def)
  qed
qed

lemma render_entries_returns:
  assumes "\<forall>e \<in> set entries. tokens_complete (generate_tokens (snd e))"
  shows "\<exists>r. render_entries generate_tokens ln_w entries muts txt_cls mut_no index = Inr r"
  using assms
proof (induction entries arbitrary: muts txt_cls mut_no index)
  case Nil
  then show ?case by simp
next
  case (Cons entry entries)
  from Cons.prems have "tokens_complete (generate_tokens (snd entry))" by simp
  then have "tokens_complete (fst (generate_tokens (snd entry)), snd (generate_tokens (snd entry)))"
    by simp
  from highlight_tokens_nonempty[OF this]
  obtain l ls where hl: "highlight_code generate_tokens (snd entry) = Inr (l # ls)"
    by (auto simp: highlight_code_def)
  from Cons.prems have "\<forall>e \<in> set entries. tokens_complete (generate_tokens (snd e))" by simp
  from Cons.IH[OF this] hl show ?case
    by (simp add: Let_def)
qed

text \<open>C4. When the tokenizer raises \<^verbatim>\<open>TokenError\<close>, the result is the lines flushed so
  far and the error's text (\<open>highlight_tokens_TokenError\<close>); but the line accumulated
  so far is not among them, since the flush of a non-empty accumulator is the last
  statement inside the \<^verbatim>\<open>try\<close> and the exception skips it. The source
  \<^verbatim>\<open>x = """abc\<close> with no closing quotes makes the tokenizer yield \<^verbatim>\<open>x\<close> and \<^verbatim>\<open>=\<close> and then
  raise: the loop is left with the accumulator \<^verbatim>\<open>x =\<close>, and the result is the error's text
  alone.\<close>

theorem partial_line_dropped:
  "highlight_loop
     [Token NAME ''x'' (1, 0) (1, 1), Token OP ''='' (1, 2) (1, 3)]
     (Some (TokenError (''('' @ squote @ ''EOF in multi-line string'' @ squote @ '', (1, 4))'')))
     [] [] 0
   = ([], ''x ='',
      Some (TokenError (''('' @ squote @ ''EOF in multi-line string'' @ squote @ '', (1, 4))'')))
   \<and> highlight_tokens
     ([Token NAME ''x'' (1, 0) (1, 1), Token OP ''='' (1, 2) (1, 3)],
      Some (TokenError (''('' @ squote @ ''EOF in multi-line string'' @ squote @ '', (1, 4))'')))
   = Inr [''('' @ squote @ ''EOF in multi-line string'' @ squote @ '', (1, 4))'']"
  by (simp add: highlight_defs)

text \<open>A string token over several rows whose text breaks at line feeds only, one for
  each row it goes down: the first line is flushed with the accumulator, the lines
  between the first and the last are flushed alone, and the last starts the next
  accumulator; with it the token has \<open>b - a + 1\<close> lines.\<close>

lemma is_linebreak_LF: "is_linebreak (CHR 0x0A)"
  by (simp add: is_linebreak_def)

lemma not_linebreak_not_CR: "\<not> is_linebreak c \<Longrightarrow> c \<noteq> CHR 0x0D"
  by (auto simp: is_linebreak_def)

lemma splitlines_from_LF:
  "splitlines_from cur (CHR 0x0A # cs) = cur # splitlines_from [] cs"
  by (simp add: is_linebreak_def)

lemma splitlines_from_other:
  "\<not> is_linebreak c \<Longrightarrow> splitlines_from cur (c # cs) = splitlines_from (cur @ [c]) cs"
  by (auto simp: is_linebreak_def)

lemma length_splitlines_from:
  assumes "only_LF s"
  shows "length (splitlines_from cur s) =
           count_list s (CHR 0x0A)
           + (if (s = [] \<and> cur = []) \<or> (s \<noteq> [] \<and> last s = CHR 0x0A) then 0 else 1)"
  using assms
proof (induction s arbitrary: cur)
  case Nil
  then show ?case by simp
next
  case (Cons c cs)
  from Cons.prems have rest: "only_LF cs" and c: "is_linebreak c \<longrightarrow> c = CHR 0x0A"
    by (simp_all add: only_LF_def)
  show ?case
  proof (cases "c = CHR 0x0A")
    case True
    then show ?thesis
      unfolding True splitlines_from_LF using Cons.IH[OF rest, of "[]"] by auto
  next
    case False
    with c have nb: "\<not> is_linebreak c" by blast
    show ?thesis
      unfolding splitlines_from_other[OF nb]
      using Cons.IH[OF rest, of "cur @ [c]"] False by auto
  qed
qed

lemma length_splitlines:
  assumes "only_LF s" and "s \<noteq> []" and "last s \<noteq> CHR 0x0A"
  shows "length (splitlines s) = count_list s (CHR 0x0A) + 1"
  using length_splitlines_from[OF assms(1), of "[]"] assms(2,3)
  by (simp add: splitlines_def)

lemma multiline_string_lines:
  assumes "fst stop > fst start"
    and "only_LF tokval" and "tokval \<noteq> []" and "last tokval \<noteq> CHR 0x0A"
    and "count_list tokval (CHR 0x0A) = fst stop - fst start"
  shows "\<exists>m0 rest. splitlines tokval = m0 # rest
           \<and> handle_token out line STRING tokval start stop =
               Inr (out @ (line @ span_str m0) # map span_str (butlast rest),
                    span_str (last (m0 # rest)))
           \<and> length ((line @ span_str m0) # map span_str (butlast rest)) + 1
               = fst stop - fst start + 1"
proof -
  from length_splitlines[OF assms(2,3,4)] assms(5)
  have len: "length (splitlines tokval) = fst stop - fst start + 1" by simp
  with assms(1) obtain m0 rest where sp: "splitlines tokval = m0 # rest"
    by (cases "splitlines tokval") auto
  with len assms(1) have "rest \<noteq> []" by auto
  with sp len assms(1) have "length ((line @ span_str m0) # map span_str (butlast rest)) + 1
      = fst stop - fst start + 1"
    by simp
  moreover have "handle_token out line STRING tokval start stop =
               Inr (out @ (line @ span_str m0) # map span_str (butlast rest),
                    span_str (last (m0 # rest)))"
    using assms(1) sp by (simp add: handle_token_def)
  ultimately show ?thesis using sp by blast
qed

text \<open>C5. A string token over the rows \<open>a\<close> to \<open>b\<close> should give \<open>b - a + 1\<close> lines.
  It does when the text breaks at line feeds only (\<open>multiline_string_lines\<close>). But
  the source splits the token's text with \<^verbatim>\<open>splitlines\<close>, which also breaks at a form
  feed (and at VT, CR, FS, GS, RS and NEL), where the tokenizer counts no row. The source
  \<^verbatim>\<open>s = """a\<close>, form feed, \<^verbatim>\<open>b\<close>, newline, \<^verbatim>\<open>c"""\<close> has a string token over the rows 1 to
  2; it gives three lines, not two.\<close>

theorem form_feed_splits_string:
  "highlight_tokens
     ([Token NAME ''s'' (1, 0) (1, 1), Token OP ''='' (1, 2) (1, 3),
       Token STRING (dquote @ dquote @ dquote @ ''a'' @ [CHR 0x0C] @ ''b'' @ newline @ ''c''
                       @ dquote @ dquote @ dquote) (1, 4) (2, 4),
       Token NEWLINE newline (2, 4) (2, 5), Token ENDMARKER [] (3, 0) (3, 0)], None)
   = Inr [''s = <span class='' @ dquote @ ''s'' @ dquote @ ''>&quot;&quot;&quot;a</span>'',
          ''<span class='' @ dquote @ ''s'' @ dquote @ ''>b</span>'',
          ''<span class='' @ dquote @ ''s'' @ dquote @ ''>c&quot;&quot;&quot;</span>'',
          []]"
  by (simp add: highlight_defs)

text \<open>An escaped text holds no angle bracket and no quote.\<close>

lemma escape_char_safe:
  "set (escape_char c) \<inter> {CHR ''<'', CHR ''>'', CHR 0x22, CHR 0x27} = {}"
  by (simp add: escape_char_def)

lemma html_escape_safe:
  "set (html_escape s) \<inter> {CHR ''<'', CHR ''>'', CHR 0x22, CHR 0x27} = {}"
  using escape_char_safe by (induction s) (auto simp: html_escape_def)

text \<open>C6. The text of every token is escaped once, by \<^const>\<open>span\<close> or by the last
  branch of \<^const>\<open>handle_token\<close>; the text of a \<^verbatim>\<open>TokenError\<close> is appended as it is. For
  the source \<^verbatim>\<open>x = (1,\<close> the error's text holds two apostrophes, which escaping would
  turn into \<^verbatim>\<open>&#x27;\<close>.\<close>

theorem error_text_not_escaped:
  "highlight_tokens
     ([Token NAME ''x'' (1, 0) (1, 1), Token OP ''='' (1, 2) (1, 3), Token OP ''('' (1, 4) (1, 5),
       Token NUMBER ''1'' (1, 5) (1, 6), Token OP '','' (1, 6) (1, 7),
       Token NL newline (1, 7) (1, 8)],
      Some (TokenError (''('' @ squote @ ''EOF in multi-line statement'' @ squote @ '', (2, 0))'')))
   = Inr [''x = (<span class='' @ dquote @ ''n'' @ dquote @ ''>1</span>,'',
          ''('' @ squote @ ''EOF in multi-line statement'' @ squote @ '', (2, 0))'']
   \<and> html_escape (''('' @ squote @ ''EOF in multi-line statement'' @ squote @ '', (2, 0))'')
     = ''(&#x27;EOF in multi-line statement&#x27;, (2, 0))''"
  by (simp add: highlight_defs)

text \<open>Whenever the tokenizer finishes (its last token is then the end marker, which
  flushes a line) or raises \<^verbatim>\<open>TokenError\<close>, \<^verbatim>\<open>highlight_code\<close> returns a list that is not
  empty, for the empty source too; then \<^verbatim>\<open>hl_item[0]\<close> is defined, and the renderer's loop
  over the entries of a line returns.\<close>

lemma highlight_code_nonempty:
  "(tokens_complete (generate_tokens source) \<longrightarrow>
      (\<exists>l ls. highlight_code generate_tokens source = Inr (l # ls) \<and> first (l # ls) = Inr l))
   \<and> ((\<forall>e \<in> set entries. tokens_complete (generate_tokens (snd e))) \<longrightarrow>
      (\<exists>r. render_entries generate_tokens ln_w entries muts txt_cls mut_no index = Inr r))"
proof (intro conjI impI)
  assume "tokens_complete (generate_tokens source)"
  then have "tokens_complete (fst (generate_tokens source), snd (generate_tokens source))"
    by simp
  from highlight_tokens_nonempty[OF this]
  show "\<exists>l ls. highlight_code generate_tokens source = Inr (l # ls) \<and> first (l # ls) = Inr l"
    by (auto simp: highlight_code_def)
next
  assume "\<forall>e \<in> set entries. tokens_complete (generate_tokens (snd e))"
  then show "\<exists>r. render_entries generate_tokens ln_w entries muts txt_cls mut_no index = Inr r"
    by (rule render_entries_returns)
qed

lemma highlight_code_nonempty_example:
  "tokens_complete ((\<lambda>source. ([Token ENDMARKER [] (1, 0) (1, 0)], None)) [])
   \<and> highlight_code (\<lambda>source. ([Token ENDMARKER [] (1, 0) (1, 0)], None)) [] = Inr [[]]
   \<and> (\<exists>r. render_entries (\<lambda>source. ([Token ENDMARKER [] (1, 0) (1, 0)], None)) 2
              [(\<lparr>m_id = 1, m_line = \<lparr>l_line = ''x = 1'', l_line_number = 0\<rparr>,
                  m_index = 0, m_status = OK_KILLED\<rparr>, [])]
              (block_open 0) ''bggreen'' 0 0 = Inr r)"
proof -
  let ?g = "(\<lambda>source. ([Token ENDMARKER [] (1, 0) (1, 0)], None)) :: tokenizer"
  let ?m = "\<lparr>m_id = 1, m_line = \<lparr>l_line = ''x = 1'', l_line_number = 0\<rparr>,
              m_index = 0, m_status = OK_KILLED\<rparr>"
  have c: "tokens_complete (?g [])"
    by (simp add: tokens_complete_def is_multiline_string_def)
  have e: "\<forall>e \<in> set [(?m, [])]. tokens_complete (?g (snd e))"
    by (simp add: tokens_complete_def is_multiline_string_def)
  have v: "highlight_code ?g [] = Inr [[]]"
    by (simp add: highlight_code_def highlight_defs)
  from highlight_code_nonempty
         [where generate_tokens = ?g and source = "[]" and entries = "[(?m, [])]" and ln_w = 2
            and muts = "block_open 0" and txt_cls = "''bggreen''" and mut_no = 0 and index = 0]
       c e v
  show ?thesis by blast
qed

text \<open>C10. \<^verbatim>\<open>highlight_code\<close> should return a list that is not empty for every source.
  It returns none when the tokenizer raises another exception than \<^verbatim>\<open>TokenError\<close>: the
  handler catches \<^verbatim>\<open>TokenError\<close> only. For the source \<^verbatim>\<open>if a:\<close>, then \<^verbatim>\<open>b\<close> indented by
  eight, then \<^verbatim>\<open>c\<close> indented by four, the tokenizer yields the tokens of the first two
  lines and raises \<^verbatim>\<open>IndentationError\<close>, which leaves \<^verbatim>\<open>highlight_code\<close> and the renderer
  that called it.\<close>

theorem indentation_error_propagates:
  "highlight_tokens
     ([Token NAME ''if'' (1, 0) (1, 2), Token NAME ''a'' (1, 3) (1, 4),
       Token OP '':'' (1, 4) (1, 5), Token NEWLINE newline (1, 5) (1, 6),
       Token INDENT ''        '' (2, 0) (2, 8),
       Token NAME ''b'' (2, 8) (2, 9), Token NEWLINE newline (2, 9) (2, 10)],
      Some (IndentationError
              ''unindent does not match any outer indentation level (<tokenize>, line 3)''))
   = Inl (IndentationError
              ''unindent does not match any outer indentation level (<tokenize>, line 3)'')"
  by (simp add: highlight_defs)

text \<open>Escaping goes through concatenation and leaves spaces alone.\<close>

lemma html_escape_append: "html_escape (a @ b) = html_escape a @ html_escape b"
  by (simp add: html_escape_def)

lemma escape_char_nonempty: "escape_char c \<noteq> []"
  by (simp add: escape_char_def)

lemma html_escape_Nil_iff: "html_escape s = [] \<longleftrightarrow> s = []"
  by (cases s) (simp_all add: html_escape_def escape_char_nonempty)

lemma html_escape_spaces:
  "list_all is_space xs \<Longrightarrow> html_escape xs = replicate (length xs) (CHR '' '')"
  by (induction xs) (simp_all add: html_escape_def escape_char_def is_space_def)

lemma take_split: "c \<le> k \<Longrightarrow> take k s = take c s @ take (k - c) (drop c s)"
  using take_add[of c "k - c" s] by simp

text \<open>The gap recovery: when the accumulator holds the escaped line up to column
  \<open>c\<close> and only spaces lie between \<open>c\<close> and the column \<open>k\<close> of the next token, the
  padded accumulator holds the escaped line up to \<open>k\<close>.\<close>

lemma begin_indent_gap:
  assumes line: "line = html_escape (take c s)"
    and pos: "line \<noteq> [] \<longrightarrow> last_pos = c"
    and ck: "c \<le> k" and ks: "k \<le> length s"
    and gap: "list_all is_space (take (k - c) (drop c s))"
  shows "begin_indent line (r, k) last_pos = html_escape (take k s)"
proof -
  have len: "length (take (k - c) (drop c s)) = k - c" using ck ks by simp
  have split: "html_escape (take k s) = line @ replicate (k - c) (CHR '' '')"
    using take_split[OF ck, of s] html_escape_spaces[OF gap] len line
    by (simp add: html_escape_append)
  show ?thesis
  proof (cases "line = []")
    case True
    with line have "html_escape (take c s) = []" by simp
    then have "take c s = []" by (simp add: html_escape_Nil_iff)
    then have "c = 0 \<or> s = []" by simp
    with ck ks have "k - c = k" by auto
    with split True show ?thesis by (simp add: begin_indent_def)
  next
    case False
    with pos have "last_pos = c" by simp
    with split False ck show ?thesis by (auto simp: begin_indent_def)
  qed
qed

lemma handle_token_plain:
  "is_plain t \<Longrightarrow>
   handle_token out line (t_num t) (t_val t) st sp = Inr (out, line @ html_escape (t_val t))"
  by (auto simp: is_plain_def handle_token_def)

lemma highlight_loop_plain_line:
  assumes "lays_out is_space s c toks" and "list_all is_plain toks"
    and "line = html_escape (take c s)" and "line \<noteq> [] \<longrightarrow> last_pos = c"
    and "k \<in> {NL, NEWLINE}"
  shows "highlight_loop (toks @ Token k v (r, length s) sp # rest) fin out line last_pos
           = highlight_loop rest fin (out @ [html_escape s]) [] (snd sp)"
  using assms
proof (induction toks arbitrary: c line last_pos)
  case Nil
  from Nil.prems have c: "c \<le> length s" and g: "list_all is_space (take (length s - c) (drop c s))"
    by simp_all
  from begin_indent_gap[OF Nil.prems(3) Nil.prems(4) c _ g, of r]
  have "begin_indent line (r, length s) last_pos = html_escape s" by simp
  with Nil.prems(5) show ?case by (auto simp: handle_token_def Let_def)
next
  case (Cons t ts)
  obtain tr tk where st: "t_start t = (tr, tk)" by (cases "t_start t")
  have
    "c \<le> tk \<and> list_all is_space (take (tk - c) (drop c s))
     \<and> snd (t_stop t) = tk + length (t_val t) \<and> snd (t_stop t) \<le> length s
     \<and> take (length (t_val t)) (drop tk s) = t_val t
     \<and> lays_out is_space s (snd (t_stop t)) ts"
    using Cons.prems(1) unfolding lays_out.simps st snd_conv .
  then have ck: "c \<le> tk"
    and g: "list_all is_space (take (tk - c) (drop c s))"
    and stop: "snd (t_stop t) = tk + length (t_val t)"
    and le: "snd (t_stop t) \<le> length s"
    and val: "take (length (t_val t)) (drop tk s) = t_val t"
    and rest: "lays_out is_space s (snd (t_stop t)) ts"
    by blast+
  from stop le have ks: "tk \<le> length s" by simp
  from Cons.prems(2) have plain: "is_plain t" and plains: "list_all is_plain ts" by simp_all
  let ?line1 = "begin_indent line (t_start t) last_pos"
  have l1: "?line1 = html_escape (take tk s)"
    unfolding st by (rule begin_indent_gap[OF Cons.prems(3) Cons.prems(4) ck ks g])
  let ?line2 = "?line1 @ html_escape (t_val t)"
  have "take (snd (t_stop t)) s = take tk s @ take (length (t_val t)) (drop tk s)"
    unfolding stop by (rule take_add)
  with val l1 have l2: "?line2 = html_escape (take (snd (t_stop t)) s)"
    by (simp add: html_escape_append)
  have step: "highlight_loop ((t # ts) @ Token k v (r, length s) sp # rest) fin out line last_pos
        = highlight_loop (ts @ Token k v (r, length s) sp # rest) fin out ?line2 (snd (t_stop t))"
    using handle_token_plain[OF plain, of out ?line1 "t_start t" "t_stop t"]
    by (simp add: Let_def)
  have "highlight_loop (ts @ Token k v (r, length s) sp # rest) fin out ?line2 (snd (t_stop t))
        = highlight_loop rest fin (out @ [html_escape s]) [] (snd sp)"
    by (rule Cons.IH[OF rest plains l2 _ Cons.prems(5)]) simp
  with step show ?case by simp
qed

text \<open>C7, as stated, fails: between tokens the source puts one space for each column,
  whatever the blank was. For the line \<^verbatim>\<open>a\<close>, tab, \<^verbatim>\<open>b\<close> the tokenizer gives \<^verbatim>\<open>a\<close> at
  column 0 and \<^verbatim>\<open>b\<close> at column 2, and the line produced is \<^verbatim>\<open>a b\<close>, with a space for
  the tab.\<close>

theorem tab_becomes_space:
  "lays_out is_whitespace (''a'' @ [CHR 0x09] @ ''b'') 0
       [Token NAME ''a'' (1, 0) (1, 1), Token NAME ''b'' (1, 2) (1, 3)]
   \<and> list_all is_plain [Token NAME ''a'' (1, 0) (1, 1), Token NAME ''b'' (1, 2) (1, 3)]
   \<and> highlight_tokens
       ([Token NAME ''a'' (1, 0) (1, 1), Token NAME ''b'' (1, 2) (1, 3),
         Token NEWLINE newline (1, 3) (1, 4), Token ENDMARKER [] (2, 0) (2, 0)], None)
     = Inr [''a b'', []]
   \<and> ''a b'' \<noteq> html_escape (''a'' @ [CHR 0x09] @ ''b'')"
  by (simp add: highlight_defs is_whitespace_def is_plain_def)

text \<open>A physical line gets a line of its own only when the accumulator is empty at its
  first token. After a backslash at the end of a line the tokenizer yields no line end:
  for \<^verbatim>\<open>foo\<close>, space, backslash on the first line and \<^verbatim>\<open>bar\<close> and \<^verbatim>\<open>baz\<close> on the second,
  the second line is joined to the first.\<close>

lemma continuation_line_merged:
  "lays_out is_space ''  bar  baz'' 0
       [Token NAME ''bar'' (2, 2) (2, 5), Token NAME ''baz'' (2, 7) (2, 10)]
   \<and> highlight_tokens
       ([Token NAME ''foo'' (1, 0) (1, 3), Token NAME ''bar'' (2, 2) (2, 5),
         Token NAME ''baz'' (2, 7) (2, 10), Token NEWLINE newline (2, 10) (2, 11),
         Token ENDMARKER [] (3, 0) (3, 0)], None)
     = Inr [''foobar  baz'', []]"
  by (simp add: highlight_defs is_space_def numeral_2_eq_2)

lemma handle_token_line_end:
  "k \<in> {NL, NEWLINE} \<Longrightarrow> handle_token out line k v st sp = Inr (out @ [line], [])"
  by (auto simp: handle_token_def)

text \<open>C7, amended. Let \<open>s\<close> be a physical line of names that are no keywords, with
  only spaces before, between and after them (the indentation token before the first,
  if the tokenizer yields one, holds the text of the line's first columns), ended by a
  \<^verbatim>\<open>NEWLINE\<close> or \<^verbatim>\<open>NL\<close> token. When \<open>s\<close> is the first line of the source, or when its
  tokens follow a \<^verbatim>\<open>NEWLINE\<close> or \<^verbatim>\<open>NL\<close> token, the loop appends exactly the escaped text
  of \<open>s\<close> to the list and goes on with an empty accumulator. No span is produced, so
  nothing is to be stripped.\<close>

theorem plain_line_round_trip:
  assumes "lays_out is_space s 0 toks" and "list_all is_plain toks"
    and "k \<in> {NL, NEWLINE}" and "k0 \<in> {NL, NEWLINE}"
  shows "highlight_loop (toks @ Token k v (r, length s) sp # rest) fin [] [] 0
           = highlight_loop rest fin [html_escape s] [] (snd sp)
         \<and> highlight_loop (Token k0 v0 st0 sp0 # toks @ Token k v (r, length s) sp # rest)
               fin out line last_pos
           = highlight_loop rest fin (out @ [begin_indent line st0 last_pos, html_escape s]) []
               (snd sp)"
proof
  have "highlight_loop (toks @ Token k v (r, length s) sp # rest) fin [] [] 0
           = highlight_loop rest fin ([] @ [html_escape s]) [] (snd sp)"
    by (rule highlight_loop_plain_line[OF assms(1,2) _ _ assms(3)])
       (simp_all add: html_escape_def)
  then show "highlight_loop (toks @ Token k v (r, length s) sp # rest) fin [] [] 0
           = highlight_loop rest fin [html_escape s] [] (snd sp)"
    by simp
next
  let ?out1 = "out @ [begin_indent line st0 last_pos]"
  have step: "highlight_loop (Token k0 v0 st0 sp0 # toks @ Token k v (r, length s) sp # rest)
               fin out line last_pos
           = highlight_loop (toks @ Token k v (r, length s) sp # rest) fin ?out1 [] (snd sp0)"
    using handle_token_line_end[OF assms(4)] by (simp add: Let_def)
  have "highlight_loop (toks @ Token k v (r, length s) sp # rest) fin ?out1 [] (snd sp0)
           = highlight_loop rest fin (?out1 @ [html_escape s]) [] (snd sp)"
    by (rule highlight_loop_plain_line[OF assms(1,2) _ _ assms(3)])
       (simp_all add: html_escape_def)
  with step show "highlight_loop
               (Token k0 v0 st0 sp0 # toks @ Token k v (r, length s) sp # rest)
               fin out line last_pos
           = highlight_loop rest fin (out @ [begin_indent line st0 last_pos, html_escape s]) []
               (snd sp)"
    by simp
qed

theorem plain_line_round_trip_witness:
  "lays_out is_space ''  foo  bar  '' 0
       [Token INDENT ''  '' (1, 0) (1, 2), Token NAME ''foo'' (1, 2) (1, 5),
        Token NAME ''bar'' (1, 7) (1, 10)]
   \<and> list_all is_plain
       [Token INDENT ''  '' (1, 0) (1, 2), Token NAME ''foo'' (1, 2) (1, 5),
        Token NAME ''bar'' (1, 7) (1, 10)]
   \<and> highlight_tokens
       ([Token INDENT ''  '' (1, 0) (1, 2), Token NAME ''foo'' (1, 2) (1, 5),
        Token NAME ''bar'' (1, 7) (1, 10)]
          @ Token NEWLINE newline (1, 12) (1, 13)
          # [Token DEDENT [] (2, 0) (2, 0), Token ENDMARKER [] (2, 0) (2, 0)], None)
     = Inr [''  foo  bar  '', []]
   \<and> lays_out is_space ''foo  bar'' 0
       [Token NAME ''foo'' (2, 0) (2, 3), Token NAME ''bar'' (2, 5) (2, 8)]
   \<and> list_all is_plain [Token NAME ''foo'' (2, 0) (2, 3), Token NAME ''bar'' (2, 5) (2, 8)]
   \<and> highlight_tokens
       (Token NAME ''a'' (1, 0) (1, 1) # Token NEWLINE newline (1, 1) (1, 2)
          # [Token NAME ''foo'' (2, 0) (2, 3), Token NAME ''bar'' (2, 5) (2, 8)]
          @ Token NEWLINE newline (2, 8) (2, 9) # [Token ENDMARKER [] (3, 0) (3, 0)], None)
     = Inr [''a'', ''foo  bar'', []]"
proof -
  let ?toks = "[Token INDENT ''  '' (1, 0) (1, 2), Token NAME ''foo'' (1, 2) (1, 5),
        Token NAME ''bar'' (1, 7) (1, 10)]"
  let ?toks2 = "[Token NAME ''foo'' (2, 0) (2, 3), Token NAME ''bar'' (2, 5) (2, 8)]"
  have n: "NEWLINE \<in> {NL, NEWLINE}" by simp
  have l: "lays_out is_space ''  foo  bar  '' 0 ?toks"
    by (simp add: is_space_def)
  have p: "list_all is_plain ?toks"
    by (simp add: is_plain_def iskeyword_def kwlist_def)
  have e: "html_escape ''  foo  bar  '' = ''  foo  bar  ''"
    by (simp add: html_escape_def escape_char_def)
  have len: "length ''  foo  bar  '' = 12" by simp
  note rt = plain_line_round_trip[OF l p n n, of newline 1 "(1, 13)"
         "[Token DEDENT [] (2, 0) (2, 0), Token ENDMARKER [] (2, 0) (2, 0)]" None,
         THEN conjunct1, unfolded len e]
  have first_line: "highlight_tokens
       (?toks @ Token NEWLINE newline (1, 12) (1, 13)
          # [Token DEDENT [] (2, 0) (2, 0), Token ENDMARKER [] (2, 0) (2, 0)], None)
     = Inr [''  foo  bar  '', []]"
    unfolding highlight_tokens_def fst_conv snd_conv rt
    by (simp add: handle_token_def begin_indent_def html_escape_def)
  have l2: "lays_out is_space ''foo  bar'' 0 ?toks2"
    by (simp add: is_space_def)
  have p2: "list_all is_plain ?toks2"
    by (simp add: is_plain_def iskeyword_def kwlist_def)
  have e2: "html_escape ''foo  bar'' = ''foo  bar''"
    by (simp add: html_escape_def escape_char_def)
  have len2: "length ''foo  bar'' = 8" by simp
  have a: "highlight_loop (Token NAME ''a'' (1, 0) (1, 1) # ts) None [] [] 0
             = highlight_loop ts None [] ''a'' 1" for ts
    by (simp add: handle_token_def begin_indent_def html_escape_def escape_char_def
        iskeyword_def kwlist_def)
  have b: "begin_indent ''a'' (1, 1) 1 = ''a''"
    by (simp add: begin_indent_def)
  note rt2 = plain_line_round_trip[OF l2 p2 n n, of newline 2 "(2, 9)"
         "[Token ENDMARKER [] (3, 0) (3, 0)]" None newline "(1, 1)" "(1, 2)" "[]" "''a''" 1,
         THEN conjunct2, unfolded len2 e2 b]
  have later_line: "highlight_tokens
       (Token NAME ''a'' (1, 0) (1, 1) # Token NEWLINE newline (1, 1) (1, 2)
          # ?toks2
          @ Token NEWLINE newline (2, 8) (2, 9) # [Token ENDMARKER [] (3, 0) (3, 0)], None)
     = Inr [''a'', ''foo  bar'', []]"
    unfolding highlight_tokens_def fst_conv snd_conv a rt2
    by (simp add: handle_token_def begin_indent_def html_escape_def)
  from l p first_line l2 p2 later_line show ?thesis by blast
qed

subsection \<open>Report file names\<close>

lemma name_of_report:
  "path_name (create_hashed_html_filename md5_hexdigest fn out_path prefix') =
     prefix' @ last12 (md5_hexdigest (encode_utf8 (path_parent fn))) @ ''_''
       @ str_replace ''.'' ''_'' (path_name fn) @ ''.html''"
  by (simp add: create_hashed_html_filename_def Let_def)

lemma last12_length: "length d = 32 \<Longrightarrow> length (last12 d) = 12"
  by (simp add: last12_def)

lemma last12_subset: "set (last12 d) \<subseteq> set d"
  by (simp add: last12_def set_drop_subset)

lemma last12_short: "length (last12 d) \<le> 12"
  by (simp add: last12_def)

lemma names_equal_iff:
  assumes "path_name fn1 = path_name fn2"
  shows "create_hashed_html_filename md5_hexdigest fn1 out_path prefix'
           = create_hashed_html_filename md5_hexdigest fn2 out_path prefix'
         \<longleftrightarrow> last12 (md5_hexdigest (encode_utf8 (path_parent fn1)))
               = last12 (md5_hexdigest (encode_utf8 (path_parent fn2)))"
  using assms by (simp add: create_hashed_html_filename_def Let_def)

text \<open>There are more directory names of 26 letters than texts of at most twelve
  characters, so two of them get the same last twelve characters of a digest, whatever
  the digest function is.\<close>

lemma short_strings_finite: "finite {s :: string. length s \<le> 12}"
  using finite_lists_length_le[of "UNIV :: char set" 12] by simp

lemma short_strings_card: "card {s :: string. length s \<le> 12} = (\<Sum>i\<le>12. 256 ^ i)"
proof -
  have "card {s :: string. set s \<subseteq> UNIV \<and> length s \<le> 12}
          = (\<Sum>i\<le>12. card (UNIV :: char set) ^ i)"
    by (rule card_lists_length_le) simp
  then show ?thesis by (simp only: card_UNIV_char subset_UNIV simp_thms)
qed

lemma geometric_less: "(\<Sum>i\<le>n. (256::nat) ^ i) < 256 ^ Suc n"
  by (induction n) simp_all

lemma power_16_26: "(16::nat) ^ 26 = 256 ^ 13"
proof -
  have "(256::nat) ^ 13 = (16 ^ 2) ^ 13" by simp
  also have "\<dots> = 16 ^ (2 * 13)" by (rule power_mult[symmetric])
  finally show ?thesis by simp
qed

lemma path_letters_card: "card (set path_letters) = 16"
proof -
  have "distinct path_letters" by (simp add: path_letters_def)
  then have "card (set path_letters) = length path_letters" by (rule distinct_card)
  then show ?thesis by (simp add: path_letters_def)
qed

lemma letters_card: "card {s. set s \<subseteq> set path_letters \<and> length s = 26} = 16 ^ 26"
proof -
  have "card {s. set s \<subseteq> set path_letters \<and> length s = 26} = card (set path_letters) ^ 26"
    by (rule card_lists_length_eq) simp
  then show ?thesis by (simp only: path_letters_card)
qed

lemma digest_collision:
  fixes f :: "string \<Rightarrow> string"
  assumes "\<And>a. length (f a) \<le> 12"
  shows "\<exists>a b. a \<noteq> b \<and> set a \<subseteq> set path_letters \<and> length a = 26
           \<and> set b \<subseteq> set path_letters \<and> length b = 26 \<and> f a = f b"
proof -
  let ?A = "{s. set s \<subseteq> set path_letters \<and> length s = 26}"
  have finA: "finite ?A" by (rule finite_lists_length_eq) simp
  have "f ` ?A \<subseteq> {s. length s \<le> 12}" using assms by auto
  then have "card (f ` ?A) \<le> card {s :: string. length s \<le> 12}"
    by (rule card_mono[OF short_strings_finite])
  also have "\<dots> < 256 ^ Suc 12"
    unfolding short_strings_card by (rule geometric_less)
  also have "\<dots> = card ?A"
    unfolding letters_card power_16_26 by simp
  finally have "\<not> inj_on f ?A" using pigeonhole by blast
  then show ?thesis unfolding inj_on_def by blast
qed

text \<open>C8, as stated, fails in its second half: the report names of two files of the
  same base name in different directories need not differ. Whatever the digest function
  is, there are two directories \<^verbatim>\<open>/a\<close> and \<^verbatim>\<open>/b\<close>, the names \<open>a\<close> and \<open>b\<close> of 26 letters,
  for which the files of one base name get the same report name: the name keeps only the
  last twelve characters of the digest of the directory.\<close>

theorem report_names_collide:
  "\<forall>md5_hexdigest file_name out_path prefix'.
     \<exists>a b. a \<noteq> b \<and> set a \<subseteq> set path_letters \<and> length a = 26
       \<and> set b \<subseteq> set path_letters \<and> length b = 26
       \<and> create_hashed_html_filename md5_hexdigest
             \<lparr>path_parent = ''/'' @ a, path_name = file_name\<rparr> out_path prefix'
         = create_hashed_html_filename md5_hexdigest
             \<lparr>path_parent = ''/'' @ b, path_name = file_name\<rparr> out_path prefix'"
proof (intro allI)
  fix md5_hexdigest :: "string \<Rightarrow> string" and file_name out_path prefix' :: string
  let ?f = "\<lambda>a. last12 (md5_hexdigest (encode_utf8 (''/'' @ a)))"
  have "\<And>a. length (?f a) \<le> 12" by (rule last12_short)
  from digest_collision[of ?f, OF this]
  obtain a b where "a \<noteq> b" "set a \<subseteq> set path_letters" "length a = 26"
    "set b \<subseteq> set path_letters" "length b = 26" "?f a = ?f b"
    by blast
  then show "\<exists>a b. a \<noteq> b \<and> set a \<subseteq> set path_letters \<and> length a = 26
       \<and> set b \<subseteq> set path_letters \<and> length b = 26
       \<and> create_hashed_html_filename md5_hexdigest
             \<lparr>path_parent = ''/'' @ a, path_name = file_name\<rparr> out_path prefix'
         = create_hashed_html_filename md5_hexdigest
             \<lparr>path_parent = ''/'' @ b, path_name = file_name\<rparr> out_path prefix'"
    by (intro exI[of _ a] exI[of _ b]) (simp add: create_hashed_html_filename_def Let_def)
qed

text \<open>C8, amended. The report name is the prefix, the last twelve characters of the
  hexadecimal digest of the UTF-8 bytes of the resolved parent directory (twelve
  hexadecimal digits, for a digest of 32 such digits), an underscore, the file's name
  with every dot replaced by an underscore, and \<^verbatim>\<open>.html\<close>; the report paths of two files
  of the same base name are equal exactly when those twelve characters of the digests of
  their directories are.\<close>

theorem report_name_form:
  "path_name (create_hashed_html_filename md5_hexdigest fn out_path prefix') =
     prefix' @ last12 (md5_hexdigest (encode_utf8 (path_parent fn))) @ ''_''
       @ str_replace ''.'' ''_'' (path_name fn) @ ''.html''
   \<and> (length (md5_hexdigest (encode_utf8 (path_parent fn))) = 32
        \<and> set (md5_hexdigest (encode_utf8 (path_parent fn))) \<subseteq> hexdigits \<longrightarrow>
      length (last12 (md5_hexdigest (encode_utf8 (path_parent fn)))) = 12
      \<and> set (last12 (md5_hexdigest (encode_utf8 (path_parent fn)))) \<subseteq> hexdigits)
   \<and> (path_name fn = path_name fn2 \<longrightarrow>
        (create_hashed_html_filename md5_hexdigest fn out_path prefix'
           = create_hashed_html_filename md5_hexdigest fn2 out_path prefix'
         \<longleftrightarrow> last12 (md5_hexdigest (encode_utf8 (path_parent fn)))
               = last12 (md5_hexdigest (encode_utf8 (path_parent fn2)))))"
  using name_of_report[of md5_hexdigest fn out_path prefix']
    last12_length[of "md5_hexdigest (encode_utf8 (path_parent fn))"]
    last12_subset[of "md5_hexdigest (encode_utf8 (path_parent fn))"]
    names_equal_iff[of fn fn2 md5_hexdigest out_path prefix']
  by blast

theorem report_name_form_witness:
  "path_name (create_hashed_html_filename
       (\<lambda>b. if b = ''/home/u/proj/a'' then ''4e82ff787271da5e3bc1f93717a4936f''
            else ''7a1231c8577e9235a73f1b83eec89f4c'')
       \<lparr>path_parent = ''/home/u/proj/a'', path_name = ''util.py''\<rparr> ''htmlmut'' ''zz_'')
     = ''zz_f93717a4936f_util_py.html''
   \<and> create_hashed_html_filename
       (\<lambda>b. if b = ''/home/u/proj/a'' then ''4e82ff787271da5e3bc1f93717a4936f''
            else ''7a1231c8577e9235a73f1b83eec89f4c'')
       \<lparr>path_parent = ''/home/u/proj/a'', path_name = ''util.py''\<rparr> ''htmlmut'' ''zz_''
     \<noteq> create_hashed_html_filename
       (\<lambda>b. if b = ''/home/u/proj/a'' then ''4e82ff787271da5e3bc1f93717a4936f''
            else ''7a1231c8577e9235a73f1b83eec89f4c'')
       \<lparr>path_parent = ''/home/u/proj/b'', path_name = ''util.py''\<rparr> ''htmlmut'' ''zz_''"
proof -
  let ?h = "(\<lambda>b. if b = ''/home/u/proj/a'' then ''4e82ff787271da5e3bc1f93717a4936f''
            else ''7a1231c8577e9235a73f1b83eec89f4c'')"
  let ?a = "\<lparr>path_parent = ''/home/u/proj/a'', path_name = ''util.py''\<rparr>"
  let ?b = "\<lparr>path_parent = ''/home/u/proj/b'', path_name = ''util.py''\<rparr>"
  have ea: "encode_utf8 ''/home/u/proj/a'' = ''/home/u/proj/a''"
    and eb: "encode_utf8 ''/home/u/proj/b'' = ''/home/u/proj/b''"
    by (simp_all add: encode_utf8_def encode_utf8_char_def)
  have da: "last12 (?h (encode_utf8 (path_parent ?a))) = ''f93717a4936f''"
    and db: "last12 (?h (encode_utf8 (path_parent ?b))) = ''1b83eec89f4c''"
    by (simp_all add: ea eb last12_def)
  have r: "str_replace ''.'' ''_'' ''util.py'' = ''util_py''"
    by (simp add: str_replace_def)
  have n: "path_name ?a = path_name ?b" by simp
  from report_name_form[of ?h ?a "''htmlmut''" "''zz_''" ?b] da db r n
  show ?thesis by simp
qed

end
